theory Spec2Isabelle
  imports Complex_Main
begin

section \<open>JavaScript numbers\<close>

text \<open>
  The harness (\<^verbatim>\<open>eval_embeddings.ts\<close>) computes with JavaScript numbers. A number is
  modelled by the value it denotes: a finite double by the real it stands for, and the
  three special values on their own. Division by zero, \<^verbatim>\<open>Infinity - Infinity\<close> and
  \<^verbatim>\<open>0 * Infinity\<close> follow IEEE 754. Rounding of finite results, overflow of finite
  results and the sign of zero are not part of the model.
\<close>

datatype jsnum = Fin real | PInf | NInf | NaN

fun js_neg :: "jsnum \<Rightarrow> jsnum" where
  "js_neg (Fin a) = Fin (- a)"
| "js_neg PInf = NInf"
| "js_neg NInf = PInf"
| "js_neg NaN = NaN"

fun js_add :: "jsnum \<Rightarrow> jsnum \<Rightarrow> jsnum" where
  "js_add (Fin a) (Fin b) = Fin (a + b)"
| "js_add (Fin a) PInf = PInf"
| "js_add (Fin a) NInf = NInf"
| "js_add PInf (Fin b) = PInf"
| "js_add PInf PInf = PInf"
| "js_add PInf NInf = NaN"
| "js_add NInf (Fin b) = NInf"
| "js_add NInf PInf = NaN"
| "js_add NInf NInf = NInf"
| "js_add NaN y = NaN"
| "js_add x NaN = NaN"

definition js_sub :: "jsnum \<Rightarrow> jsnum \<Rightarrow> jsnum" where
  "js_sub x y = js_add x (js_neg y)"

fun js_mul :: "jsnum \<Rightarrow> jsnum \<Rightarrow> jsnum" where
  "js_mul (Fin a) (Fin b) = Fin (a * b)"
| "js_mul (Fin a) PInf = (if a = 0 then NaN else if 0 < a then PInf else NInf)"
| "js_mul (Fin a) NInf = (if a = 0 then NaN else if 0 < a then NInf else PInf)"
| "js_mul PInf (Fin b) = (if b = 0 then NaN else if 0 < b then PInf else NInf)"
| "js_mul NInf (Fin b) = (if b = 0 then NaN else if 0 < b then NInf else PInf)"
| "js_mul PInf PInf = PInf"
| "js_mul PInf NInf = NInf"
| "js_mul NInf PInf = NInf"
| "js_mul NInf NInf = PInf"
| "js_mul NaN y = NaN"
| "js_mul x NaN = NaN"

fun js_div :: "jsnum \<Rightarrow> jsnum \<Rightarrow> jsnum" where
  "js_div (Fin a) (Fin b) =
     (if b \<noteq> 0 then Fin (a / b)
      else if a = 0 then NaN else if 0 < a then PInf else NInf)"
| "js_div (Fin a) PInf = Fin 0"
| "js_div (Fin a) NInf = Fin 0"
| "js_div PInf (Fin b) = (if 0 \<le> b then PInf else NInf)"
| "js_div NInf (Fin b) = (if 0 \<le> b then NInf else PInf)"
| "js_div PInf PInf = NaN"
| "js_div PInf NInf = NaN"
| "js_div NInf PInf = NaN"
| "js_div NInf NInf = NaN"
| "js_div NaN y = NaN"
| "js_div x NaN = NaN"

text \<open>The comparison operators \<^verbatim>\<open><\<close> and \<^verbatim>\<open><=\<close>; both are false when an operand is NaN.\<close>

fun js_less :: "jsnum \<Rightarrow> jsnum \<Rightarrow> bool" where
  "js_less (Fin a) (Fin b) = (a < b)"
| "js_less (Fin a) PInf = True"
| "js_less NInf (Fin b) = True"
| "js_less NInf PInf = True"
| "js_less x y = False"

fun js_le :: "jsnum \<Rightarrow> jsnum \<Rightarrow> bool" where
  "js_le NaN y = False"
| "js_le x NaN = False"
| "js_le x y = (x = y \<or> js_less x y)"

fun is_finite :: "jsnum \<Rightarrow> bool" where
  "is_finite (Fin a) = True"
| "is_finite x = False"

section \<open>Arrays\<close>

text \<open>
  Reading an array of numbers past its end gives \<^verbatim>\<open>undefined\<close>, which every arithmetic
  use converts to NaN; the model reads NaN there.
\<close>

definition js_index :: "jsnum list \<Rightarrow> nat \<Rightarrow> jsnum" where
  "js_index xs k = (if k < length xs then xs ! k else NaN)"

text \<open>
  \<^verbatim>\<open>Array.prototype.slice(start, end)\<close> on integer arguments: a negative argument counts
  from the end of the array, both are clamped to the array, and an empty range gives the
  empty array.
\<close>

definition js_slice :: "'a list \<Rightarrow> int \<Rightarrow> int \<Rightarrow> 'a list" where
  "js_slice xs start stop =
     (let len = int (length xs);
          k = (if start < 0 then max (len + start) 0 else min start len);
          fin = (if stop < 0 then max (len + stop) 0 else min stop len)
      in take (nat (fin - k)) (drop (nat k) xs))"

text \<open>
  \<^verbatim>\<open>Array.prototype.sort(comparefn)\<close> is a stable sort (ECMAScript 2019). An element
  \<open>x\<close> goes after \<open>y\<close> when \<open>comparefn x y\<close> is positive; a NaN result counts as zero.
  The model is the stable insertion sort. For a comparator that is not a consistent
  ordering (a NaN score makes it so) the language leaves the order to the implementation;
  the insertion sort then gives a permutation of the input, which on some rows is another
  one than a given runtime gives. What is proved about the order of a ranking is therefore
  proved for rows without NaN, where every stable sort gives the same result; everything
  else proved below uses only that the ranking is a permutation.
\<close>

fun js_positive :: "jsnum \<Rightarrow> bool" where
  "js_positive (Fin a) = (0 < a)"
| "js_positive PInf = True"
| "js_positive x = False"

fun sort_insert :: "('a \<Rightarrow> 'a \<Rightarrow> jsnum) \<Rightarrow> 'a \<Rightarrow> 'a list \<Rightarrow> 'a list" where
  "sort_insert cmp x [] = [x]"
| "sort_insert cmp x (y # ys) =
     (if js_positive (cmp x y) then y # sort_insert cmp x ys else x # y # ys)"

definition js_sort :: "('a \<Rightarrow> 'a \<Rightarrow> jsnum) \<Rightarrow> 'a list \<Rightarrow> 'a list" where
  "js_sort cmp xs = foldr (sort_insert cmp) xs []"

section \<open>Ranking metrics\<close>

text \<open>
  \<^verbatim>\<open>row.map((score, idx) => ({ score, idx }))\<close> pairs every score with its corpus index;
  \<^verbatim>\<open>.sort((a, b) => b.score - a.score)\<close> orders the pairs by descending score.
\<close>

record item =
  score :: jsnum
  idx :: nat

definition with_index :: "jsnum list \<Rightarrow> item list" where
  "with_index row = map (\<lambda>(s, i). \<lparr>score = s, idx = i\<rparr>) (zip row [0..<length row])"

definition by_score_desc :: "item \<Rightarrow> item \<Rightarrow> jsnum" where
  "by_score_desc a b = js_sub (score b) (score a)"

text \<open>The full ranking of a row, as \<^verbatim>\<open>meanReciprocalRank\<close> builds it.\<close>

definition ranking :: "jsnum list \<Rightarrow> nat list" where
  "ranking row = map idx (js_sort by_score_desc (with_index row))"

text \<open>The first \<open>k\<close> of the ranking, as \<^verbatim>\<open>recallAtK\<close> builds it: the slice is taken before the
  indices are projected out.\<close>

definition top_k :: "jsnum list \<Rightarrow> int \<Rightarrow> nat list" where
  "top_k row k = map idx (js_slice (js_sort by_score_desc (with_index row)) 0 k)"

text \<open>
  The ground truth is an array of integers. \<^verbatim>\<open>groundTruth[i]\<close> past the end of the array
  is \<^verbatim>\<open>undefined\<close>, which no ranked index equals.
\<close>

definition gt_at :: "int list \<Rightarrow> nat \<Rightarrow> int option" where
  "gt_at groundTruth i = (if i < length groundTruth then Some (groundTruth ! i) else None)"

fun js_includes :: "nat list \<Rightarrow> int option \<Rightarrow> bool" where
  "js_includes ranked None = False"
| "js_includes ranked (Some g) = (g \<in> set (map int ranked))"

fun index_from :: "nat list \<Rightarrow> int \<Rightarrow> int \<Rightarrow> int" where
  "index_from [] g p = - 1"
| "index_from (x # xs) g p = (if int x = g then p else index_from xs g (p + 1))"

fun js_indexOf :: "nat list \<Rightarrow> int option \<Rightarrow> int" where
  "js_indexOf ranked None = - 1"
| "js_indexOf ranked (Some g) = index_from ranked g 0"

text \<open>The loop of \<^verbatim>\<open>recallAtK\<close> over the rows \<open>i\<close>, with the counter \<open>hits\<close>.\<close>

fun hits_loop :: "jsnum list list \<Rightarrow> int list \<Rightarrow> int \<Rightarrow> nat list \<Rightarrow> nat \<Rightarrow> nat" where
  "hits_loop sim groundTruth k [] hits = hits"
| "hits_loop sim groundTruth k (i # is) hits =
     hits_loop sim groundTruth k is
       (if js_includes (top_k (sim ! i) k) (gt_at groundTruth i) then hits + 1 else hits)"

definition recallAtK :: "jsnum list list \<Rightarrow> int list \<Rightarrow> int \<Rightarrow> jsnum" where
  "recallAtK sim groundTruth k =
     js_div (Fin (real (hits_loop sim groundTruth k [0..<length sim] 0)))
            (Fin (real (length sim)))"

text \<open>The loop of \<^verbatim>\<open>meanReciprocalRank\<close>, with the accumulator \<open>rrSum\<close>.\<close>

fun rr_loop :: "jsnum list list \<Rightarrow> int list \<Rightarrow> nat list \<Rightarrow> jsnum \<Rightarrow> jsnum" where
  "rr_loop sim groundTruth [] rrSum = rrSum"
| "rr_loop sim groundTruth (i # is) rrSum =
     rr_loop sim groundTruth is
       (js_add rrSum
          (js_div (Fin 1)
             (Fin (real_of_int (js_indexOf (ranking (sim ! i)) (gt_at groundTruth i) + 1)))))"

definition meanReciprocalRank :: "jsnum list list \<Rightarrow> int list \<Rightarrow> jsnum" where
  "meanReciprocalRank sim groundTruth =
     js_div (rr_loop sim groundTruth [0..<length sim] (Fin 0)) (Fin (real (length sim)))"

section \<open>Similarity\<close>

text \<open>
  The source raises no error of its own. What can be raised is the runtime's TypeError,
  on reading a property of \<^verbatim>\<open>undefined\<close>, and whatever the embedding provider throws.
\<close>

datatype error = TypeError | ProviderError

text \<open>The innermost loop of \<^verbatim>\<open>matmul\<close>: \<^verbatim>\<open>sum += a[i][k] * b[k][j]\<close>. When \<open>k\<close> is past
  the last row of \<open>b\<close>, \<^verbatim>\<open>b[k]\<close> is \<^verbatim>\<open>undefined\<close> and \<^verbatim>\<open>b[k][j]\<close> raises.\<close>

fun sum_loop :: "jsnum list \<Rightarrow> jsnum list list \<Rightarrow> nat \<Rightarrow> nat list \<Rightarrow> jsnum \<Rightarrow> error + jsnum" where
  "sum_loop ai b j [] s = Inr s"
| "sum_loop ai b j (k # ks) s =
     (if k < length b
      then sum_loop ai b j ks (js_add s (js_mul (js_index ai k) (js_index (b ! k) j)))
      else Inl TypeError)"

text \<open>The loop over the columns \<open>j\<close>; \<open>a0\<close> is \<^verbatim>\<open>a[0]\<close>, whose length bounds \<open>k\<close>.\<close>

fun row_loop :: "jsnum list \<Rightarrow> jsnum list \<Rightarrow> jsnum list list \<Rightarrow> nat list \<Rightarrow> error + jsnum list" where
  "row_loop a0 ai b [] = Inr []"
| "row_loop a0 ai b (j # js) =
     (case sum_loop ai b j [0..<length a0] (Fin 0) of
        Inl e \<Rightarrow> Inl e
      | Inr s \<Rightarrow> (case row_loop a0 ai b js of Inl e \<Rightarrow> Inl e | Inr r \<Rightarrow> Inr (s # r)))"

text \<open>The loop over the rows \<open>i\<close>. Its body evaluates \<^verbatim>\<open>b[0].length\<close>, which raises
  when \<open>b\<close> is empty.\<close>

fun rows_loop :: "jsnum list list \<Rightarrow> jsnum list list \<Rightarrow> nat list \<Rightarrow> error + jsnum list list" where
  "rows_loop a b [] = Inr []"
| "rows_loop a b (i # is) =
     (case b of
        [] \<Rightarrow> Inl TypeError
      | b0 # _ \<Rightarrow>
          (case row_loop (a ! 0) (a ! i) b [0..<length b0] of
             Inl e \<Rightarrow> Inl e
           | Inr r \<Rightarrow> (case rows_loop a b is of Inl e \<Rightarrow> Inl e | Inr rs \<Rightarrow> Inr (r # rs))))"

definition matmul :: "jsnum list list \<Rightarrow> jsnum list list \<Rightarrow> error + jsnum list list" where
  "matmul a b = rows_loop a b [0..<length a]"

definition transpose_js :: "jsnum list list \<Rightarrow> jsnum list list" where
  "transpose_js matrix =
     (if length matrix = 0 then []
      else map (\<lambda>j. map (\<lambda>i. js_index (matrix ! i) j) [0..<length matrix])
               [0..<length (matrix ! 0)])"

text \<open>The similarity matrix as \<^verbatim>\<open>evaluateModel\<close> computes it: queries times the transposed
  corpus.\<close>

definition similarity :: "jsnum list list \<Rightarrow> jsnum list list \<Rightarrow> error + jsnum list list" where
  "similarity queryEmbeddings corpusEmbeddings =
     matmul queryEmbeddings (transpose_js corpusEmbeddings)"

section \<open>Batch encoder\<close>

text \<open>
  The encoder reads the world through four calls: the embedding provider
  (\<^verbatim>\<open>extractor(text, ...)\<close>, which may throw), the clock (\<^verbatim>\<open>process.hrtime.bigint()\<close>,
  nanoseconds), the CPU counters (\<^verbatim>\<open>process.cpuUsage()\<close>, user and system microseconds)
  and the resident set size (\<^verbatim>\<open>process.memoryUsage().rss\<close>, bytes). Each is a function
  of a world state \<open>'s\<close> that returns its reading and the next state. The progress lines
  written to the console, and the flag \<^verbatim>\<open>showProgress\<close> that only switches them, do not
  enter any result and are left out.
\<close>

record 's world =
  extractor :: "'s \<Rightarrow> string \<Rightarrow> (error + jsnum list) \<times> 's"
  hrtime :: "'s \<Rightarrow> int \<times> 's"
  cpuUsage :: "'s \<Rightarrow> (int \<times> int) \<times> 's"
  memoryUsage :: "'s \<Rightarrow> nat \<times> 's"

record EncodingResult =
  embeddings :: "jsnum list list"
  peakMemoryMb :: jsnum
  wallTimeMs :: jsnum
  cpuPercent :: jsnum

text \<open>The inner loop \<^verbatim>\<open>for (const text of batch)\<close>: one provider call per text, each
  awaited before the next; a throw ends the whole encode call.\<close>

fun encode_batch ::
  "('s \<Rightarrow> string \<Rightarrow> (error + jsnum list) \<times> 's) \<Rightarrow> string list \<Rightarrow> jsnum list list \<Rightarrow> 's
     \<Rightarrow> (error + jsnum list list) \<times> 's" where
  "encode_batch ext [] allEmbeddings s = (Inr allEmbeddings, s)"
| "encode_batch ext (t # ts) allEmbeddings s =
     (case ext s t of
        (Inl e, s') \<Rightarrow> (Inl e, s')
      | (Inr embedding, s') \<Rightarrow> encode_batch ext ts (allEmbeddings @ [embedding]) s')"

text \<open>The outer loop \<^verbatim>\<open>for (let i = 0; i < texts.length; i += batchSize)\<close>. With a batch
  size below one and a non-empty input it never ends, which is the value \<open>None\<close>.\<close>

partial_function (option) encode_loop ::
  "'s world \<Rightarrow> string list \<Rightarrow> int \<Rightarrow> int \<Rightarrow> jsnum list list \<Rightarrow> nat \<Rightarrow> 's
     \<Rightarrow> ((error + jsnum list list \<times> nat) \<times> 's) option" where
  "encode_loop w texts batchSize i allEmbeddings peakRss s =
     (if i < int (length texts) then
        (case encode_batch (extractor w)
                (js_slice texts i (min (i + batchSize) (int (length texts)))) allEmbeddings s of
           (Inl e, s') \<Rightarrow> Some (Inl e, s')
         | (Inr allEmbeddings', s') \<Rightarrow>
             (case memoryUsage w s' of
                (rss, s'') \<Rightarrow>
                  encode_loop w texts batchSize (i + batchSize) allEmbeddings'
                    (max peakRss rss) s''))
      else Some (Inr (allEmbeddings, peakRss), s))"

definition encodeTexts ::
  "'s world \<Rightarrow> string list \<Rightarrow> int \<Rightarrow> 's \<Rightarrow> ((error + EncodingResult) \<times> 's) option" where
  "encodeTexts w texts batchSize s0 =
     (case hrtime w s0 of (startTime, s1) \<Rightarrow>
       (case cpuUsage w s1 of (startCpu, s2) \<Rightarrow>
         (case encode_loop w texts batchSize 0 [] 0 s2 of
            None \<Rightarrow> None
          | Some (Inl e, s3) \<Rightarrow> Some (Inl e, s3)
          | Some (Inr (allEmbeddings, peakRss), s3) \<Rightarrow>
              (case hrtime w s3 of (endTime, s4) \<Rightarrow>
                (case cpuUsage w s4 of (nowCpu, s5) \<Rightarrow>
                   (let endCpu = (fst nowCpu - fst startCpu, snd nowCpu - snd startCpu);
                        wallTime = js_div (Fin (real_of_int (endTime - startTime))) (Fin 1000000);
                        cpuTimeMs = js_div (Fin (real_of_int (fst endCpu + snd endCpu))) (Fin 1000);
                        cpuPct = js_mul (js_div cpuTimeMs wallTime) (Fin 100);
                        peakMb = js_div (Fin (real peakRss)) (Fin (1024 * 1024))
                    in Some (Inr \<lparr>embeddings = allEmbeddings, peakMemoryMb = peakMb,
                                  wallTimeMs = wallTime, cpuPercent = cpuPct\<rparr>, s5)))))))"

section \<open>Model evaluation\<close>

definition BATCH_SIZE :: int where
  "BATCH_SIZE = 32"

definition RECALL_K_VALUES :: "int list" where
  "RECALL_K_VALUES = [1, 3, 5, 10]"

text \<open>The report record; the entries \<^verbatim>\<open>Recall@k\<close> are kept as pairs of \<open>k\<close> and the value.\<close>

record EvaluationResults =
  model :: string
  xml_embedding_time_sec :: jsnum
  query_embedding_time_sec :: jsnum
  avg_xml_latency_ms :: jsnum
  avg_query_latency_ms :: jsnum
  xml_peak_memory_mb :: jsnum
  query_peak_memory_mb :: jsnum
  xml_cpu_percent :: jsnum
  query_cpu_percent :: jsnum
  recall :: "(int \<times> jsnum) list"
  mrr :: jsnum

text \<open>The record of \<^verbatim>\<open>evaluateModel\<close>, from the two encoding results, the two item counts
  and the similarity matrix.\<close>

definition report ::
  "string \<Rightarrow> EncodingResult \<Rightarrow> EncodingResult \<Rightarrow> nat \<Rightarrow> nat \<Rightarrow> jsnum list list
     \<Rightarrow> EvaluationResults" where
  "report modelName xmlResult queryResult xmlCount queryCount similarityMatrix =
     (let xmlTime = js_div (wallTimeMs xmlResult) (Fin 1000);
          queryTime = js_div (wallTimeMs queryResult) (Fin 1000);
          groundTruth = map int [0..<queryCount]
      in \<lparr>model = modelName,
          xml_embedding_time_sec = xmlTime,
          query_embedding_time_sec = queryTime,
          avg_xml_latency_ms = js_mul (js_div xmlTime (Fin (real xmlCount))) (Fin 1000),
          avg_query_latency_ms = js_mul (js_div queryTime (Fin (real queryCount))) (Fin 1000),
          xml_peak_memory_mb = peakMemoryMb xmlResult,
          query_peak_memory_mb = peakMemoryMb queryResult,
          xml_cpu_percent = cpuPercent xmlResult,
          query_cpu_percent = cpuPercent queryResult,
          recall = map (\<lambda>k. (k, recallAtK similarityMatrix groundTruth k)) RECALL_K_VALUES,
          mrr = meanReciprocalRank similarityMatrix groundTruth\<rparr>)"

text \<open>\<^verbatim>\<open>evaluateModel\<close> once the provider is loaded: encode the corpus, encode the
  queries, build the similarity matrix, fill the record. An error of either encode call
  or of the matrix product ends it.\<close>

definition evaluateModel ::
  "'s world \<Rightarrow> string \<Rightarrow> string list \<Rightarrow> string list \<Rightarrow> 's
     \<Rightarrow> ((error + EvaluationResults) \<times> 's) option" where
  "evaluateModel w modelName xmlTexts descriptions s0 =
     (case encodeTexts w xmlTexts BATCH_SIZE s0 of
        None \<Rightarrow> None
      | Some (Inl e, s1) \<Rightarrow> Some (Inl e, s1)
      | Some (Inr xmlResult, s1) \<Rightarrow>
          (case encodeTexts w descriptions BATCH_SIZE s1 of
             None \<Rightarrow> None
           | Some (Inl e, s2) \<Rightarrow> Some (Inl e, s2)
           | Some (Inr queryResult, s2) \<Rightarrow>
               (case matmul (embeddings queryResult) (transpose_js (embeddings xmlResult)) of
                  Inl e \<Rightarrow> Some (Inl e, s2)
                | Inr similarityMatrix \<Rightarrow>
                    Some (Inr (report modelName xmlResult queryResult (length xmlTexts)
                                 (length descriptions) similarityMatrix), s2))))"

declare encode_loop.simps [code]

section \<open>Notions used to state the properties\<close>

text \<open>The order in which a stable descending sort puts two scored items: the higher score
  first, and of two equal scores the lower index first.\<close>

definition ranks_before :: "item \<Rightarrow> item \<Rightarrow> bool" where
  "ranks_before a b = (js_less (score b) (score a) \<or> (score a = score b \<and> idx a < idx b))"

text \<open>The dot product of two vectors, summed from zero in index order with the
  operations of the number model, over the common length of the two.\<close>

definition dot :: "jsnum list \<Rightarrow> jsnum list \<Rightarrow> jsnum" where
  "dot u v = foldl (\<lambda>s (x, y). js_add s (js_mul x y)) (Fin 0) (zip u v)"

text \<open>Consecutive batches of length \<open>n\<close>, the last one possibly shorter.\<close>

function chunks :: "nat \<Rightarrow> 'a list \<Rightarrow> 'a list list" where
  "chunks n xs = (if n = 0 \<or> xs = [] then [] else take n xs # chunks n (drop n xs))"
  by pat_completeness auto
termination
  by (relation "measure (\<lambda>(n, xs). length xs)") auto

declare chunks.simps [simp del]

text \<open>Encoding a given list of batches one after the other, with the memory reading
  after each: what the outer loop of \<^verbatim>\<open>encodeTexts\<close> does once its batches are known.\<close>

fun run_batches ::
  "'s world \<Rightarrow> string list list \<Rightarrow> jsnum list list \<Rightarrow> nat \<Rightarrow> 's
     \<Rightarrow> (error + jsnum list list \<times> nat) \<times> 's" where
  "run_batches w [] allEmbeddings peakRss s = (Inr (allEmbeddings, peakRss), s)"
| "run_batches w (batch # rest) allEmbeddings peakRss s =
     (case encode_batch (extractor w) batch allEmbeddings s of
        (Inl e, s') \<Rightarrow> (Inl e, s')
      | (Inr allEmbeddings', s') \<Rightarrow>
          (case memoryUsage w s' of
             (rss, s'') \<Rightarrow> run_batches w rest allEmbeddings' (max peakRss rss) s''))"

text \<open>
  A world that records what is asked of it: the state is the list of provider calls and
  memory readings made so far. The provider answers with a given function \<open>emb\<close> of the
  text; clock, CPU counters and memory read zero.
\<close>

datatype event = Invoke string | MemSample

definition tracing_world :: "(string \<Rightarrow> jsnum list) \<Rightarrow> (event list) world" where
  "tracing_world emb =
     \<lparr>extractor = (\<lambda>s t. (Inr (emb t), s @ [Invoke t])),
      hrtime = (\<lambda>s. (0, s)),
      cpuUsage = (\<lambda>s. ((0, 0), s)),
      memoryUsage = (\<lambda>s. (0, s @ [MemSample]))\<rparr>"

text \<open>A world whose clock advances by one microsecond at every reading; the state is the
  number of readings made. No CPU time is spent and no memory is used.\<close>

definition clock_world :: "int world" where
  "clock_world =
     \<lparr>extractor = (\<lambda>s t. (Inr [], s)),
      hrtime = (\<lambda>s. (1000 * s, s + 1)),
      cpuUsage = (\<lambda>s. ((0, 0), s)),
      memoryUsage = (\<lambda>s. (0, s))\<rparr>"

section \<open>The ranking is a permutation of the corpus indices\<close>

lemma set_sort_insert: "set (sort_insert cmp x ys) = insert x (set ys)"
  by (induction ys) auto

lemma length_sort_insert: "length (sort_insert cmp x ys) = Suc (length ys)"
  by (induction ys) auto

lemma distinct_map_sort_insert:
  "distinct (map f (sort_insert cmp x ys)) = (f x \<notin> f ` set ys \<and> distinct (map f ys))"
  by (induction ys) (auto simp: set_sort_insert)

lemma set_js_sort: "set (js_sort cmp xs) = set xs"
  by (induction xs) (simp_all add: js_sort_def set_sort_insert)

lemma length_js_sort: "length (js_sort cmp xs) = length xs"
  by (induction xs) (simp_all add: js_sort_def length_sort_insert)

lemma distinct_map_js_sort: "distinct (map f (js_sort cmp xs)) = distinct (map f xs)"
  by (induction xs)
    (simp_all add: js_sort_def distinct_map_sort_insert set_js_sort [unfolded js_sort_def])

lemma map_idx_with_index: "map idx (with_index row) = [0..<length row]"
  by (rule nth_equalityI) (simp_all add: with_index_def)

lemma set_ranking: "set (ranking row) = {0..<length row}"
proof -
  have "set (ranking row) = idx ` set (with_index row)"
    by (simp add: ranking_def set_js_sort)
  also have "\<dots> = set (map idx (with_index row))" by simp
  finally show ?thesis by (simp only: map_idx_with_index set_upt)
qed

lemma length_ranking: "length (ranking row) = length row"
  by (simp add: ranking_def length_js_sort with_index_def)

lemma distinct_ranking: "distinct (ranking row)"
  by (simp add: ranking_def distinct_map_js_sort map_idx_with_index)

lemma top_k_take: "0 \<le> k \<Longrightarrow> top_k row k = take (nat k) (ranking row)"
  by (simp add: top_k_def ranking_def js_slice_def Let_def take_map min_def)

section \<open>Recall at k\<close>

lemma hits_loop_count:
  "hits_loop sim gt k is h =
     h + length (filter (\<lambda>i. js_includes (top_k (sim ! i) k) (gt_at gt i)) is)"
  by (induction "is" arbitrary: h) simp_all

lemma js_includes_take_mono:
  "m \<le> n \<Longrightarrow> js_includes (take m r) g \<Longrightarrow> js_includes (take n r) g"
  using set_take_subset_set_take [of m n r] by (cases g) auto

lemma length_filter_mono:
  "(\<And>x. x \<in> set xs \<Longrightarrow> P x \<Longrightarrow> Q x) \<Longrightarrow> length (filter P xs) \<le> length (filter Q xs)"
  by (induction xs) auto

lemma hits_mono:
  assumes "0 \<le> k1" "k1 \<le> k2"
  shows "hits_loop sim gt k1 is 0 \<le> hits_loop sim gt k2 is 0"
proof -
  have "nat k1 \<le> nat k2" using assms by simp
  then show ?thesis using assms
    by (simp add: hits_loop_count top_k_take length_filter_mono js_includes_take_mono)
qed

text \<open>
  C6, as the code has it. For a similarity matrix with at least one row and cutoffs
  \<open>0 \<le> k1 \<le> k2\<close>, recall at \<open>k1\<close> is at most recall at \<open>k2\<close>. The two conditions are
  needed: on the empty matrix both values are \<open>0 / 0 = NaN\<close>, which compares false, and a
  negative cutoff makes \<^verbatim>\<open>slice(0, k)\<close> count from the end of the ranking.
\<close>

theorem C6_recall_monotone:
  assumes "sim \<noteq> []" and "0 \<le> k1" and "k1 \<le> k2"
  shows "js_le (recallAtK sim gt k1) (recallAtK sim gt k2)"
proof -
  have "hits_loop sim gt k1 [0..<length sim] 0 \<le> hits_loop sim gt k2 [0..<length sim] 0"
    using assms(2,3) by (rule hits_mono)
  then have "real (hits_loop sim gt k1 [0..<length sim] 0) / real (length sim)
      \<le> real (hits_loop sim gt k2 [0..<length sim] 0) / real (length sim)"
    by (simp add: divide_right_mono)
  with assms(1) show ?thesis
    by (auto simp: recallAtK_def)
qed

text \<open>C6 on the row \<open>[1, 2]\<close> with ground truth 0: recall is 0 at cutoff 1 and 1 at cutoff 2.\<close>

theorem C6_recall_monotone_witness:
  "[[Fin 1, Fin 2]] \<noteq> [] \<and> (0::int) \<le> 1 \<and> (1::int) \<le> 2
   \<and> js_le (recallAtK [[Fin 1, Fin 2]] [0] 1) (recallAtK [[Fin 1, Fin 2]] [0] 2)"
  using C6_recall_monotone [of "[[Fin 1, Fin 2]]" 1 2 "[0]"] by simp

text \<open>
  C6 as stated fails twice: on the empty matrix with cutoffs 1 and 2, and on a one-row
  matrix with cutoffs \<open>-1 \<le> 0\<close>, where recall is 1 and then 0.
\<close>

theorem C6_counterexample:
  "\<not> js_le (recallAtK [] [] 1) (recallAtK [] [] 2)
   \<and> (- 1 :: int) \<le> 0
   \<and> \<not> js_le (recallAtK [[Fin 1, Fin 2]] [1] (- 1)) (recallAtK [[Fin 1, Fin 2]] [1] 0)"
  by (simp add: recallAtK_def top_k_def js_slice_def js_sort_def with_index_def
      by_score_desc_def js_sub_def gt_at_def upt_rec)

lemma top_k_all: "int (length row) \<le> k \<Longrightarrow> top_k row k = ranking row"
  by (simp add: top_k_take length_ranking)

lemma hit_full:
  assumes "int (length row) \<le> k" "i < length gt" "0 \<le> gt ! i" "gt ! i < int (length row)"
  shows "js_includes (top_k row k) (gt_at gt i)"
proof -
  have "nat (gt ! i) \<in> set (ranking row)" using assms by (simp add: set_ranking)
  then have "int (nat (gt ! i)) \<in> int ` set (ranking row)" by (rule imageI)
  then show ?thesis using assms by (simp add: top_k_all gt_at_def)
qed

text \<open>
  C7. For a similarity matrix with at least one row, all rows of length \<open>C\<close>, and a ground
  truth that gives every query an index in \<open>[0, C)\<close>, recall at any \<open>k \<ge> C\<close> is exactly 1.
\<close>

theorem C7_recall_full:
  assumes "sim \<noteq> []"
    and "\<forall>i < length sim. length (sim ! i) = C"
    and "\<forall>i < length sim. i < length gt \<and> 0 \<le> gt ! i \<and> gt ! i < int C"
    and "int C \<le> k"
  shows "recallAtK sim gt k = Fin 1"
proof -
  have "filter (\<lambda>i. js_includes (top_k (sim ! i) k) (gt_at gt i)) [0..<length sim]
        = [0..<length sim]"
    using assms by (auto simp: filter_id_conv intro!: hit_full)
  then have "hits_loop sim gt k [0..<length sim] 0 = length sim"
    by (simp add: hits_loop_count)
  with assms(1) show ?thesis by (simp add: recallAtK_def)
qed

text \<open>C7 on a 2 by 2 matrix whose second query ranks its own document last, at \<open>k = 3\<close>.\<close>

theorem C7_recall_full_witness:
  "[[Fin 1, Fin 2], [Fin 5, Fin 0]] \<noteq> [] \<and> int 2 \<le> 3
   \<and> recallAtK [[Fin 1, Fin 2], [Fin 5, Fin 0]] [0, 1] 3 = Fin 1"
  using C7_recall_full [of "[[Fin 1, Fin 2], [Fin 5, Fin 0]]" 2 "[0, 1]" 3]
  by (simp add: less_Suc_eq)

section \<open>Mean reciprocal rank\<close>

lemma index_from_absent: "g \<notin> int ` set xs \<Longrightarrow> index_from xs g p = - 1"
  by (induction xs arbitrary: p) auto

lemma index_from_present:
  "g \<in> int ` set xs \<Longrightarrow> p \<le> index_from xs g p \<and> index_from xs g p < p + int (length xs)"
proof (induction xs arbitrary: p)
  case Nil
  then show ?case by simp
next
  case (Cons x xs)
  show ?case
  proof (cases "int x = g")
    case True
    then show ?thesis by simp
  next
    case False
    with Cons.prems have "g \<in> int ` set xs" by auto
    from Cons.IH [OF this, of "p + 1"] False show ?thesis by simp
  qed
qed

text \<open>The reciprocal rank of one row.\<close>

lemma rr_out_of_range:
  assumes "i < length gt" "gt ! i < 0 \<or> int (length row) \<le> gt ! i"
  shows "js_div (Fin 1) (Fin (real_of_int (js_indexOf (ranking row) (gt_at gt i) + 1))) = PInf"
proof -
  have "gt ! i \<notin> int ` set (ranking row)" using assms(2) by (auto simp: set_ranking)
  then have "js_indexOf (ranking row) (gt_at gt i) = - 1"
    using assms(1) by (simp add: gt_at_def index_from_absent)
  then show ?thesis by simp
qed

lemma rr_in_range:
  assumes "i < length gt" "0 \<le> gt ! i" "gt ! i < int (length row)"
  shows "\<exists>t. js_div (Fin 1) (Fin (real_of_int (js_indexOf (ranking row) (gt_at gt i) + 1))) = Fin t
             \<and> 0 < t \<and> t \<le> 1"
proof -
  have "nat (gt ! i) \<in> set (ranking row)" using assms by (simp add: set_ranking)
  then have "int (nat (gt ! i)) \<in> int ` set (ranking row)" by (rule imageI)
  then have "gt ! i \<in> int ` set (ranking row)" using assms(2) by simp
  from index_from_present [OF this, of 0]
  have "0 \<le> js_indexOf (ranking row) (gt_at gt i)"
    using assms(1) by (simp add: gt_at_def)
  then have "1 \<le> real_of_int (js_indexOf (ranking row) (gt_at gt i) + 1)" by simp
  then show ?thesis by (simp add: divide_le_eq)
qed

lemma rr_term_cases:
  "(\<exists>t. js_div (Fin 1) (Fin (real_of_int (js_indexOf r g + 1))) = Fin t \<and> 0 < t)
   \<or> js_div (Fin 1) (Fin (real_of_int (js_indexOf r g + 1))) = PInf"
proof -
  have "- 1 \<le> js_indexOf r g"
  proof (cases g)
    case None then show ?thesis by simp
  next
    case (Some v)
    show ?thesis
    proof (cases "v \<in> int ` set r")
      case True
      from index_from_present [OF this, of 0] Some show ?thesis by simp
    next
      case False
      then show ?thesis using Some by (simp add: index_from_absent)
    qed
  qed
  then have "0 \<le> real_of_int (js_indexOf r g + 1)" by simp
  then show ?thesis by (auto simp: less_le)
qed

lemma rr_loop_PInf: "rr_loop sim gt is PInf = PInf"
proof (induction "is")
  case Nil then show ?case by simp
next
  case (Cons i "is")
  from rr_term_cases [of "ranking (sim ! i)" "gt_at gt i"] Cons show ?case by auto
qed

lemma rr_loop_out_of_range:
  assumes "i \<in> set is" "i < length gt" "gt ! i < 0 \<or> int (length (sim ! i)) \<le> gt ! i" "0 \<le> a"
  shows "rr_loop sim gt is (Fin a) = PInf"
  using assms(1,4)
proof (induction "is" arbitrary: a)
  case Nil then show ?case by simp
next
  case (Cons j js)
  show ?case
  proof (cases "j = i")
    case True
    then show ?thesis using rr_out_of_range [OF assms(2,3)] by (simp add: rr_loop_PInf)
  next
    case False
    with Cons.prems have mem: "i \<in> set js" by simp
    from rr_term_cases [of "ranking (sim ! j)" "gt_at gt j"] show ?thesis
    proof
      assume "\<exists>t. js_div (Fin 1) (Fin (real_of_int (js_indexOf (ranking (sim ! j)) (gt_at gt j) + 1))) = Fin t \<and> 0 < t"
      then obtain t where t: "js_div (Fin 1) (Fin (real_of_int (js_indexOf (ranking (sim ! j)) (gt_at gt j) + 1))) = Fin t" "0 < t" by blast
      with Cons.prems have "0 \<le> a + t" by simp
      from Cons.IH [OF mem this] t show ?thesis by simp
    next
      assume "js_div (Fin 1) (Fin (real_of_int (js_indexOf (ranking (sim ! j)) (gt_at gt j) + 1))) = PInf"
      then show ?thesis by (simp add: rr_loop_PInf)
    qed
  qed
qed

text \<open>
  C4, as the code has it. When the ground truth of some query is an index outside
  \<open>[0, number of columns of its row)\<close>, \<^verbatim>\<open>indexOf\<close> gives \<open>-1\<close>, the rank is 0, the reciprocal
  rank is \<open>1 / 0 = Infinity\<close>, and \<^verbatim>\<open>meanReciprocalRank\<close> returns \<open>Infinity\<close>. Nothing is
  raised.
\<close>

theorem C4_mrr_out_of_range:
  assumes "i < length sim" "i < length gt" "gt ! i < 0 \<or> int (length (sim ! i)) \<le> gt ! i"
  shows "meanReciprocalRank sim gt = PInf"
proof -
  have "i \<in> set [0..<length sim]" using assms(1) by simp
  from rr_loop_out_of_range [OF this assms(2,3), of 0]
  show ?thesis by (simp add: meanReciprocalRank_def)
qed

text \<open>C4 on a 2 by 2 matrix whose second query has the ground truth \<open>-1\<close>.\<close>

theorem C4_mrr_out_of_range_witness:
  "(1::nat) < length [[Fin 1, Fin 2], [Fin 3, Fin 4]] \<and> (1::nat) < length [0, - 1 :: int]
   \<and> [0, - 1 :: int] ! 1 < 0
   \<and> meanReciprocalRank [[Fin 1, Fin 2], [Fin 3, Fin 4]] [0, - 1] = PInf"
  using C4_mrr_out_of_range [of 1 "[[Fin 1, Fin 2], [Fin 3, Fin 4]]" "[0, - 1]"] by simp

text \<open>C4 as stated fails: with the ground truth 5 on a row of two scores, a number comes
  back, and it is \<open>Infinity\<close>.\<close>

theorem C4_counterexample:
  "meanReciprocalRank [[Fin 1, Fin 2]] [5] = PInf"
  by (simp add: meanReciprocalRank_def ranking_def js_sort_def with_index_def
      by_score_desc_def js_sub_def gt_at_def upt_rec)

lemma rr_loop_in_range:
  assumes "\<forall>i \<in> set is. i < length gt \<and> 0 \<le> gt ! i \<and> gt ! i < int (length (sim ! i))"
  shows "\<exists>b. rr_loop sim gt is (Fin a) = Fin b \<and> a \<le> b \<and> (is \<noteq> [] \<longrightarrow> a < b)
             \<and> b \<le> a + real (length is)"
  using assms
proof (induction "is" arbitrary: a)
  case Nil then show ?case by simp
next
  case (Cons i "is")
  then have "i < length gt" "0 \<le> gt ! i" "gt ! i < int (length (sim ! i))" by simp_all
  from rr_in_range [OF this]
  obtain t where t: "js_div (Fin 1) (Fin (real_of_int (js_indexOf (ranking (sim ! i)) (gt_at gt i) + 1))) = Fin t" "0 < t" "t \<le> 1" by blast
  from Cons.prems have "\<forall>i \<in> set is. i < length gt \<and> 0 \<le> gt ! i \<and> gt ! i < int (length (sim ! i))" by simp
  from Cons.IH [OF this, of "a + t"]
  obtain b where b: "rr_loop sim gt is (Fin (a + t)) = Fin b" "a + t \<le> b" "b \<le> a + t + real (length is)" by blast
  with t show ?case by simp
qed

text \<open>
  C10. For a similarity matrix with at least one row and a ground truth that gives every
  query an index inside its row, \<^verbatim>\<open>meanReciprocalRank\<close> returns a finite number \<open>r\<close> with
  \<open>0 < r \<le> 1\<close>.
\<close>

theorem C10_mrr_range:
  assumes "sim \<noteq> []"
    and "\<forall>i < length sim. i < length gt \<and> 0 \<le> gt ! i \<and> gt ! i < int (length (sim ! i))"
  shows "\<exists>r. meanReciprocalRank sim gt = Fin r \<and> 0 < r \<and> r \<le> 1"
proof -
  from assms(2) have "\<forall>i \<in> set [0..<length sim]. i < length gt \<and> 0 \<le> gt ! i \<and> gt ! i < int (length (sim ! i))" by simp
  from rr_loop_in_range [OF this, of 0] assms(1)
  obtain b where b: "rr_loop sim gt [0..<length sim] (Fin 0) = Fin b" "0 < b" "b \<le> real (length sim)"
    by auto
  with assms(1) show ?thesis by (simp add: meanReciprocalRank_def divide_le_eq)
qed

text \<open>C10 on a 2 by 2 matrix with ranks 2 and 1, where the mean is \<open>3/4\<close>.\<close>

theorem C10_mrr_range_witness:
  "[[Fin 1, Fin 2], [Fin 5, Fin 0]] \<noteq> []
   \<and> (\<exists>r. meanReciprocalRank [[Fin 1, Fin 2], [Fin 5, Fin 0]] [0, 0] = Fin r \<and> 0 < r \<and> r \<le> 1)"
  using C10_mrr_range [of "[[Fin 1, Fin 2], [Fin 5, Fin 0]]" "[0, 0]"]
  by (simp add: less_Suc_eq)

section \<open>The ranking is a stable descending sort\<close>

lemma js_positive_sub: "x \<noteq> NaN \<Longrightarrow> y \<noteq> NaN \<Longrightarrow> js_positive (js_sub y x) = js_less x y"
  by (cases x; cases y) (simp_all add: js_sub_def)

lemma js_less_trans: "js_less x y \<Longrightarrow> js_less y z \<Longrightarrow> js_less x z"
  by (cases x; cases y; cases z) simp_all

lemma js_less_total: "x \<noteq> NaN \<Longrightarrow> y \<noteq> NaN \<Longrightarrow> js_less x y \<or> x = y \<or> js_less y x"
  by (cases x; cases y) auto

lemma ranks_before_trans: "ranks_before a b \<Longrightarrow> ranks_before b c \<Longrightarrow> ranks_before a c"
  unfolding ranks_before_def by (auto intro: js_less_trans)

lemma sorted_sort_insert:
  assumes "score x \<noteq> NaN" "\<forall>y \<in> set ys. score y \<noteq> NaN" "\<forall>y \<in> set ys. idx x < idx y"
    and "sorted_wrt ranks_before ys"
  shows "sorted_wrt ranks_before (sort_insert by_score_desc x ys)"
  using assms(2-)
proof (induction ys)
  case Nil
  then show ?case by simp
next
  case (Cons y ys)
  have pos: "js_positive (by_score_desc x y) = js_less (score x) (score y)"
    using assms(1) Cons.prems(1) by (simp add: by_score_desc_def js_positive_sub)
  show ?case
  proof (cases "js_less (score x) (score y)")
    case True
    then have "ranks_before y x" by (simp add: ranks_before_def)
    moreover have "sorted_wrt ranks_before (sort_insert by_score_desc x ys)"
      using Cons by simp
    ultimately show ?thesis using True Cons.prems(3) pos
      by (auto simp: set_sort_insert)
  next
    case False
    with js_less_total [of "score x" "score y"] assms(1) Cons.prems(1,2)
    have xy: "ranks_before x y" by (auto simp: ranks_before_def)
    moreover have "\<forall>z \<in> set ys. ranks_before x z"
      using xy Cons.prems(3) by (auto intro: ranks_before_trans)
    ultimately show ?thesis using False Cons.prems(3) pos by simp
  qed
qed

lemma sorted_js_sort:
  assumes "\<forall>y \<in> set xs. score y \<noteq> NaN" "sorted_wrt (\<lambda>a b. idx a < idx b) xs"
  shows "sorted_wrt ranks_before (js_sort by_score_desc xs)"
  using assms
proof (induction xs)
  case Nil
  then show ?case by (simp add: js_sort_def)
next
  case (Cons x xs)
  then have "sorted_wrt ranks_before (js_sort by_score_desc xs)" by simp
  then have "sorted_wrt ranks_before (sort_insert by_score_desc x (js_sort by_score_desc xs))"
    using Cons.prems by (intro sorted_sort_insert) (simp_all add: set_js_sort)
  then show ?case by (simp add: js_sort_def)
qed

lemma score_with_index: "a \<in> set (with_index row) \<Longrightarrow> score a = row ! idx a \<and> idx a < length row"
  by (auto simp: with_index_def in_set_zip)

lemma sorted_idx_with_index: "sorted_wrt (\<lambda>a b. idx a < idx b) (with_index row)"
proof -
  have "sorted_wrt (<) (map idx (with_index row))"
    by (simp only: map_idx_with_index sorted_wrt_upt)
  then show ?thesis by (simp add: sorted_wrt_map)
qed

lemma ranking_sorted:
  assumes "NaN \<notin> set row" "p < q" "q < length row"
  shows "js_less (row ! (ranking row ! q)) (row ! (ranking row ! p))
         \<or> (row ! (ranking row ! p) = row ! (ranking row ! q) \<and> ranking row ! p < ranking row ! q)"
proof -
  let ?s = "js_sort by_score_desc (with_index row)"
  have len: "length ?s = length row" by (simp add: length_js_sort with_index_def)
  have "\<forall>y \<in> set (with_index row). score y \<noteq> NaN"
    using assms(1) score_with_index by (metis nth_mem)
  then have "sorted_wrt ranks_before ?s"
    using sorted_idx_with_index by (rule sorted_js_sort)
  then have rb: "ranks_before (?s ! p) (?s ! q)"
    using assms(2,3) len by (simp add: sorted_wrt_iff_nth_less)
  have "?s ! p \<in> set (with_index row)" "?s ! q \<in> set (with_index row)"
    using assms(2,3) len set_js_sort [of by_score_desc "with_index row"] nth_mem [of _ ?s]
    by auto
  then have "score (?s ! p) = row ! idx (?s ! p)" "score (?s ! q) = row ! idx (?s ! q)"
    by (simp_all add: score_with_index)
  moreover have "ranking row ! p = idx (?s ! p)" "ranking row ! q = idx (?s ! q)"
    using assms(2,3) len by (simp_all add: ranking_def)
  ultimately show ?thesis using rb by (simp add: ranks_before_def)
qed

lemma js_positive_sub_self: "\<not> js_positive (js_sub c c)"
  by (cases c) (simp_all add: js_sub_def)

lemma ranking_const4: "js_sort by_score_desc (with_index (replicate 4 c)) = with_index (replicate 4 c)"
  by (simp add: js_sort_def with_index_def by_score_desc_def js_positive_sub_self upt_rec numeral_eq_Suc)

lemma recall_ties:
  "recallAtK [replicate 4 c0, replicate 4 c1, replicate 4 c2, replicate 4 c3] [0, 1, 2, 3] 2
   = Fin (1 / 2)"
proof -
  have r: "top_k (replicate 4 c) 2 = [0, 1]" for c
    by (simp add: top_k_def ranking_const4 js_slice_def)
      (simp add: with_index_def upt_rec numeral_eq_Suc)
  have i: "[0..<length [replicate 4 c0, replicate 4 c1, replicate 4 c2, replicate 4 c3]]
           = [0, 1, 2, 3]"
    by (simp add: upt_rec)
  have h: "hits_loop [replicate 4 c0, replicate 4 c1, replicate 4 c2, replicate 4 c3]
             [0, 1, 2, 3] 2 [0, 1, 2, 3] 0 = 2"
    by (simp add: r gt_at_def)
  show ?thesis
    unfolding recallAtK_def i h by simp
qed

text \<open>
  C8, as the code has it. In the ranking of a row without NaN, of two positions \<open>p < q\<close> the earlier holds
  the strictly higher score, or the two scores are equal and the earlier holds the lower
  corpus index. The ranking is a permutation of the corpus indices, and for a cutoff
  \<open>k \<ge> 0\<close> \<^verbatim>\<open>recallAtK\<close> looks at its first \<open>k\<close> entries. So on a 4 by 4 matrix in which
  every row holds one score four times, with the identity ground truth, recall at 2 is
  exactly 0.5: the ranking of every row is \<open>[0, 1, 2, 3]\<close>, and only the first two queries
  find their document among the first two.
\<close>

theorem C8_stable_descending_ranking:
  "(NaN \<notin> set row \<and> p < q \<and> q < length row \<longrightarrow>
      js_less (row ! (ranking row ! q)) (row ! (ranking row ! p))
      \<or> (row ! (ranking row ! p) = row ! (ranking row ! q) \<and> ranking row ! p < ranking row ! q))
   \<and> distinct (ranking row) \<and> set (ranking row) = {0..<length row}
   \<and> (0 \<le> k \<longrightarrow> top_k row k = take (nat k) (ranking row))
   \<and> recallAtK [replicate 4 c0, replicate 4 c1, replicate 4 c2, replicate 4 c3] [0, 1, 2, 3] 2
       = Fin (1 / 2)"
  using ranking_sorted [of row p q]
  by (simp add: distinct_ranking set_ranking top_k_take recall_ties)

text \<open>C8 on the row \<open>[3, 5, 3]\<close>: the ranking is \<open>[1, 0, 2]\<close>, and positions 1 and 2 hold
  the tied indices 0 and 2 in their original order.\<close>

theorem C8_stable_descending_ranking_witness:
  "NaN \<notin> set [Fin 3, Fin 5, Fin 3] \<and> (1::nat) < 2 \<and> 2 < length [Fin 3, Fin 5, Fin 3]
   \<and> (0::int) \<le> 2
   \<and> ranking [Fin 3, Fin 5, Fin 3] = [1, 0, 2]
   \<and> top_k [Fin 3, Fin 5, Fin 3] 2 = [1, 0]
   \<and> recallAtK [replicate 4 (Fin 7), replicate 4 (Fin 1), replicate 4 PInf, replicate 4 (Fin 0)]
         [0, 1, 2, 3] 2 = Fin (1 / 2)"
  using C8_stable_descending_ranking
    [where row = "[Fin 3, Fin 5, Fin 3]" and p = 1 and q = 2 and k = 2
       and ?c0.0 = "Fin 7" and ?c1.0 = "Fin 1" and ?c2.0 = PInf and ?c3.0 = "Fin 0"]
  by (simp add: ranking_def js_sort_def with_index_def by_score_desc_def js_sub_def upt_rec)

text \<open>
  C8 as stated, for every row, fails on a row that holds NaN. On the row \<open>[1, NaN, 2]\<close>
  every comparison with the NaN score gives NaN, which counts as zero, so no element moves:
  the ranking is \<open>[0, 1, 2]\<close>, and the score 1 at position 0 is ranked before the higher
  score 2 at position 2.
\<close>

theorem C8_counterexample:
  "ranking [Fin 1, NaN, Fin 2] = [0, 1, 2]
   \<and> js_less ([Fin 1, NaN, Fin 2] ! (ranking [Fin 1, NaN, Fin 2] ! 0))
               ([Fin 1, NaN, Fin 2] ! (ranking [Fin 1, NaN, Fin 2] ! 2))"
  by (simp add: ranking_def js_sort_def with_index_def by_score_desc_def js_sub_def upt_rec)

section \<open>Similarity matrix\<close>

lemma sum_loop_ok:
  "\<forall>k \<in> set ks. k < length b \<Longrightarrow>
   sum_loop ai b j ks s =
     Inr (foldl (\<lambda>s k. js_add s (js_mul (js_index ai k) (js_index (b ! k) j))) s ks)"
  by (induction ks arbitrary: s) simp_all

lemma sum_loop_err:
  "\<exists>k \<in> set ks. \<not> k < length b \<Longrightarrow> sum_loop ai b j ks s = Inl TypeError"
  by (induction ks arbitrary: s) auto

lemma row_loop_ok:
  "\<forall>j \<in> set js. sum_loop ai b j [0..<length a0] (Fin 0) = Inr (f j) \<Longrightarrow>
   row_loop a0 ai b js = Inr (map f js)"
  by (induction js) simp_all

lemma row_loop_err:
  "js \<noteq> [] \<Longrightarrow> \<forall>j \<in> set js. sum_loop ai b j [0..<length a0] (Fin 0) = Inl e \<Longrightarrow>
   row_loop a0 ai b js = Inl e"
  by (cases js) simp_all

lemma rows_loop_ok:
  "\<forall>i \<in> set is. row_loop (a ! 0) (a ! i) (b0 # bs) [0..<length b0] = Inr (g i) \<Longrightarrow>
   rows_loop a (b0 # bs) is = Inr (map g is)"
  by (induction "is") simp_all

lemma rows_loop_err:
  "is \<noteq> [] \<Longrightarrow> \<forall>i \<in> set is. row_loop (a ! 0) (a ! i) (b0 # bs) [0..<length b0] = Inl e \<Longrightarrow>
   rows_loop a (b0 # bs) is = Inl e"
  by (cases "is") simp_all

lemma foldl_index_zip:
  assumes "n \<le> length u" "n \<le> length v"
  shows "foldl (\<lambda>s k. f s (u ! k) (v ! k)) s [0..<n] = foldl (\<lambda>s (x, y). f s x y) s (zip (take n u) (take n v))"
proof -
  have "zip (take n u) (take n v) = map (\<lambda>k. (u ! k, v ! k)) [0..<n]"
    using assms by (intro nth_equalityI) simp_all
  then show ?thesis by (simp add: foldl_map)
qed

lemma transpose_js_rows:
  assumes "c \<noteq> []" "\<forall>r \<in> set c. length r = D"
  shows "transpose_js c = map (\<lambda>k. map (\<lambda>v. v ! k) c) [0..<D]"
proof -
  have c0: "length (c ! 0) = D" using assms by (cases c) simp_all
  have "\<And>k. k < D \<Longrightarrow> map (\<lambda>i. js_index (c ! i) k) [0..<length c] = map (\<lambda>v. v ! k) c"
    using assms(2) by (intro nth_equalityI) (simp_all add: js_index_def)
  then show ?thesis using assms(1) c0 by (simp add: transpose_js_def)
qed

lemma cell_ok:
  assumes "c \<noteq> []" "\<forall>r \<in> set c. length r = Dc" "length u = Dq" "Dq \<le> Dc" "j < length c"
  shows "sum_loop u (transpose_js c) j [0..<Dq] (Fin 0) = Inr (dot u (take Dq (c ! j)))"
proof -
  let ?b = "transpose_js c"
  have b: "?b = map (\<lambda>k. map (\<lambda>v. v ! k) c) [0..<Dc]"
    using assms(1,2) by (rule transpose_js_rows)
  have cj: "length (c ! j) = Dc" using assms(2,5) by simp
  have "sum_loop u ?b j [0..<Dq] (Fin 0)
        = Inr (foldl (\<lambda>s k. js_add s (js_mul (js_index u k) (js_index (?b ! k) j))) (Fin 0) [0..<Dq])"
    using assms(4) by (intro sum_loop_ok) (simp add: b)
  also have "foldl (\<lambda>s k. js_add s (js_mul (js_index u k) (js_index (?b ! k) j))) (Fin 0) [0..<Dq]
        = foldl (\<lambda>s k. js_add s (js_mul (u ! k) ((c ! j) ! k))) (Fin 0) [0..<Dq]"
    using assms(3,4,5) by (intro foldl_cong) (simp_all add: b js_index_def)
  also have "\<dots> = foldl (\<lambda>s (x, y). js_add s (js_mul x y)) (Fin 0) (zip (take Dq u) (take Dq (c ! j)))"
    using assms(3,4) cj by (intro foldl_index_zip) simp_all
  finally show ?thesis using assms(3) by (simp add: dot_def)
qed

lemma similarity_ok:
  assumes "c \<noteq> []" "\<forall>r \<in> set c. length r = Dc" "\<forall>r \<in> set q. length r = Dq"
    and "Dq \<le> Dc" "1 \<le> Dc"
  shows "similarity q c = Inr (map (\<lambda>u. map (\<lambda>v. dot u (take Dq v)) c) q)"
proof (cases "q = []")
  case True
  then show ?thesis by (simp add: similarity_def matmul_def)
next
  case False
  let ?b = "transpose_js c"
  have b: "?b = map (\<lambda>k. map (\<lambda>v. v ! k) c) [0..<Dc]"
    using assms(1,2) by (rule transpose_js_rows)
  obtain b0 bs where bb: "?b = b0 # bs" using assms(5) b by (cases ?b) auto
  have "b0 = ?b ! 0" by (simp add: bb)
  then have lb0: "length b0 = length c" using assms(5) by (simp add: b)
  have q0: "length (q ! 0) = Dq" using False assms(3) by (cases q) simp_all
  have row: "row_loop (q ! 0) (q ! i) ?b [0..<length b0]
             = Inr (map (\<lambda>j. dot (q ! i) (take Dq (c ! j))) [0..<length c])" if "i < length q" for i
  proof -
    have "length (q ! i) = Dq" using that assms(3) by simp
    then have "\<forall>j \<in> set [0..<length c].
        sum_loop (q ! i) ?b j [0..<length (q ! 0)] (Fin 0) = Inr (dot (q ! i) (take Dq (c ! j)))"
      using q0 cell_ok [OF assms(1,2) _ assms(4), of "q ! i"] by simp
    then show ?thesis unfolding lb0 by (rule row_loop_ok)
  qed
  have "rows_loop q (b0 # bs) [0..<length q]
        = Inr (map (\<lambda>i. map (\<lambda>j. dot (q ! i) (take Dq (c ! j))) [0..<length c]) [0..<length q])"
    by (rule rows_loop_ok) (simp add: row [unfolded bb])
  moreover have "map (\<lambda>i. map (\<lambda>j. dot (q ! i) (take Dq (c ! j))) [0..<length c]) [0..<length q]
        = map (\<lambda>u. map (\<lambda>v. dot u (take Dq v)) c) q"
    by (intro nth_equalityI) simp_all
  ultimately show ?thesis by (simp add: similarity_def matmul_def bb)
qed

lemma similarity_err:
  assumes "q \<noteq> []" "c \<noteq> []" "\<forall>r \<in> set c. length r = Dc" "\<forall>r \<in> set q. length r = Dq"
    and "Dc < Dq"
  shows "similarity q c = Inl TypeError"
proof -
  let ?b = "transpose_js c"
  have b: "?b = map (\<lambda>k. map (\<lambda>v. v ! k) c) [0..<Dc]"
    using assms(2,3) by (rule transpose_js_rows)
  have q0: "length (q ! 0) = Dq" using assms(1,4) by (cases q) simp_all
  have ne: "[0..<length q] \<noteq> []" using assms(1) by simp
  show ?thesis
  proof (cases ?b)
    case Nil
    then show ?thesis using assms(1) by (cases q) (simp_all add: similarity_def matmul_def upt_rec)
  next
    case (Cons b0 bs)
    have "b0 = ?b ! 0" by (simp add: Cons)
    moreover have "0 < Dc" using Cons b by (cases Dc) simp_all
    ultimately have lb0: "length b0 = length c" by (simp add: b)
    have cell: "sum_loop u ?b j [0..<Dq] (Fin 0) = Inl TypeError" for u j
      using assms(5) by (intro sum_loop_err) (auto simp: b intro!: bexI [of _ Dc])
    have "row_loop (q ! 0) (q ! i) ?b [0..<length b0] = Inl TypeError" for i
      using assms(2) by (intro row_loop_err) (simp_all add: lb0 q0 cell)
    then have "rows_loop q (b0 # bs) [0..<length q] = Inl TypeError"
      using ne by (intro rows_loop_err) (simp_all add: Cons)
    then show ?thesis by (simp add: similarity_def matmul_def Cons)
  qed
qed

text \<open>
  C5, as the code has it. For a query set and a non-empty corpus set whose vectors all
  have the same length \<open>D \<ge> 1\<close>, the similarity computation returns one row per query,
  in order, holding one entry per corpus vector, in order: the dot product of the two,
  with no normalisation.
\<close>

theorem C5_similarity_is_dot_products:
  assumes "c \<noteq> []" and "1 \<le> D"
    and "\<forall>r \<in> set q. length r = D" and "\<forall>r \<in> set c. length r = D"
  shows "similarity q c = Inr (map (\<lambda>u. map (\<lambda>v. dot u v) c) q)"
proof -
  have "map (\<lambda>u. map (\<lambda>v. dot u (take D v)) c) q = map (\<lambda>u. map (\<lambda>v. dot u v) c) q"
    using assms(4) by (intro map_cong refl) simp
  with similarity_ok [OF assms(1,4,3) le_refl assms(2)] show ?thesis by simp
qed

text \<open>C5 on the 2 by 2 identity matrices: the result is the identity matrix.\<close>

theorem C5_similarity_is_dot_products_witness:
  "[[Fin 1, Fin 0], [Fin 0, Fin 1]] \<noteq> [] \<and> (1::nat) \<le> 2
   \<and> similarity [[Fin 1, Fin 0], [Fin 0, Fin 1]] [[Fin 1, Fin 0], [Fin 0, Fin 1]]
       = Inr [[Fin 1, Fin 0], [Fin 0, Fin 1]]"
  using C5_similarity_is_dot_products
    [of "[[Fin 1, Fin 0], [Fin 0, Fin 1]]" 2 "[[Fin 1, Fin 0], [Fin 0, Fin 1]]"]
  by (simp add: dot_def)

text \<open>C5 as stated fails for vectors of length 0: the transpose of a one-row corpus of
  empty vectors is the empty array, and \<^verbatim>\<open>matmul\<close> raises on \<^verbatim>\<open>b[0].length\<close>.\<close>

theorem C5_counterexample:
  "similarity [[]] [[]] = Inl TypeError"
  by (simp add: similarity_def matmul_def transpose_js_def)

text \<open>
  C2, as the code has it. No dimension is checked. For a non-empty query set of vectors
  of length \<open>Dq\<close> and a non-empty corpus set of vectors of another length \<open>Dc\<close>: when
  \<open>Dq < Dc\<close> the result is the matrix of dot products of each query with the first \<open>Dq\<close>
  components of each corpus vector; when \<open>Dq > Dc\<close> the runtime raises a TypeError.
\<close>

theorem C2_dimension_mismatch:
  assumes "q \<noteq> []" and "c \<noteq> []"
    and "\<forall>r \<in> set q. length r = Dq" and "\<forall>r \<in> set c. length r = Dc"
    and "Dq \<noteq> Dc"
  shows "similarity q c =
           (if Dq < Dc then Inr (map (\<lambda>u. map (\<lambda>v. dot u (take Dq v)) c) q)
            else Inl TypeError)"
proof (cases "Dq < Dc")
  case True
  then have "Dq \<le> Dc" "1 \<le> Dc" by simp_all
  from similarity_ok [OF assms(2,4,3) this] True show ?thesis by simp
next
  case False
  with assms(5) have "Dc < Dq" by simp
  from similarity_err [OF assms(1,2,4,3) this] False show ?thesis by simp
qed

text \<open>C2 on one query of length 4 against one corpus vector of length 3.\<close>

theorem C2_dimension_mismatch_witness:
  "[[Fin 1, Fin 2, Fin 3, Fin 4]] \<noteq> [] \<and> [[Fin 1, Fin 2, Fin 3]] \<noteq> [] \<and> (4::nat) \<noteq> 3
   \<and> similarity [[Fin 1, Fin 2, Fin 3, Fin 4]] [[Fin 1, Fin 2, Fin 3]] = Inl TypeError"
  using C2_dimension_mismatch [of "[[Fin 1, Fin 2, Fin 3, Fin 4]]" "[[Fin 1, Fin 2, Fin 3]]" 4 3]
  by simp

text \<open>C2 as stated fails: a query of length 3 against a corpus vector of length 4 gives
  a matrix, computed from the first three components.\<close>

theorem C2_counterexample:
  "similarity [[Fin 1, Fin 2, Fin 3]] [[Fin 1, Fin 2, Fin 3, Fin 4]] = Inr [[Fin 14]]"
  by (simp add: similarity_def matmul_def transpose_js_def js_index_def upt_rec)

text \<open>
  C3. With no query the result is the empty matrix, whatever the corpus. With one query
  and an empty corpus, \<^verbatim>\<open>transpose\<close> returns the empty array and \<^verbatim>\<open>matmul\<close> raises a
  TypeError on \<^verbatim>\<open>b[0].length\<close>.
\<close>

theorem C3_empty_corpus_raises:
  "similarity [] c = Inr [] \<and> transpose_js [] = []
   \<and> similarity [[Fin 1, Fin 2]] [] = Inl TypeError"
  by (simp add: similarity_def matmul_def transpose_js_def)

section \<open>Batch encoder: order of calls and of results\<close>

lemma js_slice_batch:
  assumes "0 \<le> i" "i < int (length xs)" "1 \<le> n"
  shows "js_slice xs i (min (i + n) (int (length xs))) = take (nat n) (drop (nat i) xs)"
  using assms by (auto simp: js_slice_def Let_def min_def)

lemma encode_loop_batches:
  assumes "1 \<le> n" "0 \<le> i"
  shows "encode_loop w texts n i acc peak s
         = Some (run_batches w (chunks (nat n) (drop (nat i) texts)) acc peak s)"
  using assms(2)
proof (induction "length texts - nat i" arbitrary: i acc peak s rule: less_induct)
  case less
  show ?case
  proof (cases "i < int (length texts)")
    case False
    then have "drop (nat i) texts = []" by simp
    then show ?thesis using False
      by (subst encode_loop.simps) (simp add: chunks.simps)
  next
    case True
    have ne: "drop (nat i) texts \<noteq> []" using True less.prems by simp
    have sl: "js_slice texts i (min (i + n) (int (length texts))) = take (nat n) (drop (nat i) texts)"
      using less.prems True assms(1) by (rule js_slice_batch)
    have dr: "drop (nat n) (drop (nat i) texts) = drop (nat (i + n)) texts"
      using less.prems assms(1) by (simp add: nat_add_distrib add.commute)
    have ch: "chunks (nat n) (drop (nat i) texts)
              = take (nat n) (drop (nat i) texts) # chunks (nat n) (drop (nat (i + n)) texts)"
    proof -
      have "chunks (nat n) (drop (nat i) texts)
            = take (nat n) (drop (nat i) texts) # chunks (nat n) (drop (nat n) (drop (nat i) texts))"
        using ne assms(1) by (subst chunks.simps) (simp del: drop_drop)
      then show ?thesis by (simp only: dr)
    qed
    have IH: "encode_loop w texts n (i + n) acc' peak' s'
              = Some (run_batches w (chunks (nat n) (drop (nat (i + n)) texts)) acc' peak' s')"
      for acc' peak' s'
      using less.prems assms(1) True by (intro less.hyps) auto
    show ?thesis
      using True
      by (subst encode_loop.simps) (simp add: sl ch IH split: prod.splits sum.splits)
  qed
qed


lemma encode_batch_tracing:
  "encode_batch (extractor (tracing_world emb)) batch acc s
   = (Inr (acc @ map emb batch), s @ map Invoke batch)"
  by (induction batch arbitrary: acc s) (simp_all add: tracing_world_def)

lemma run_batches_tracing:
  "run_batches (tracing_world emb) bs acc peak s
   = (Inr (acc @ map emb (concat bs), peak),
      s @ concat (map (\<lambda>b. map Invoke b @ [MemSample]) bs))"
proof (induction bs arbitrary: acc s)
  case Nil
  then show ?case by simp
next
  case (Cons b bs)
  have m: "memoryUsage (tracing_world emb) s' = (0, s' @ [MemSample])" for s'
    by (simp add: tracing_world_def)
  show ?case by (simp add: encode_batch_tracing m Cons)
qed

lemma concat_chunks: "0 < n \<Longrightarrow> concat (chunks n xs) = xs"
proof (induction n xs rule: chunks.induct)
  case (1 n xs)
  then show ?case by (subst chunks.simps) auto
qed

lemma chunks_lengths: "b \<in> set (chunks n xs) \<Longrightarrow> b \<noteq> [] \<and> length b \<le> n"
proof (induction n xs rule: chunks.induct)
  case (1 n xs)
  show ?case
  proof (cases "n = 0 \<or> xs = []")
    case True
    with "1.prems" show ?thesis by (simp add: chunks.simps)
  next
    case False
    then have c: "chunks n xs = take n xs # chunks n (drop n xs)" by (subst chunks.simps) simp
    with "1.prems" have "b = take n xs \<or> b \<in> set (chunks n (drop n xs))" by simp
    then show ?thesis
    proof
      assume "b = take n xs"
      with False show ?thesis by simp
    next
      assume "b \<in> set (chunks n (drop n xs))"
      with "1.IH" [OF False] show ?thesis .
    qed
  qed
qed

lemma chunks_full: "b \<in> set (butlast (chunks n xs)) \<Longrightarrow> length b = n"
proof (induction n xs rule: chunks.induct)
  case (1 n xs)
  show ?case
  proof (cases "n = 0 \<or> xs = []")
    case True
    with "1.prems" show ?thesis by (simp add: chunks.simps)
  next
    case False
    then have c: "chunks n xs = take n xs # chunks n (drop n xs)" by (subst chunks.simps) simp
    show ?thesis
    proof (cases "chunks n (drop n xs) = []")
      case True
      with c "1.prems" show ?thesis by simp
    next
      case ne: False
      then have "drop n xs \<noteq> []" by (auto simp: chunks.simps)
      then have "length (take n xs) = n" by simp
      with c ne "1.prems" "1.IH" [OF False] show ?thesis by auto
    qed
  qed
qed

text \<open>
  C9. For every batch size of at least one, \<^verbatim>\<open>encodeTexts\<close> in the recording world
  returns, and the record of what it asked is, batch after batch, one provider call per
  text of the batch in order, followed by one memory reading. The batches are consecutive
  pieces of the input: together they are the input, none is empty or longer than the
  batch size, and all but the last have exactly the batch size. The embeddings returned
  are those of the texts, in the order of the texts.
\<close>

theorem C9_encode_order:
  assumes "1 \<le> batchSize"
  shows "(\<exists>res. encodeTexts (tracing_world emb) texts batchSize []
            = Some (Inr res, concat (map (\<lambda>b. map Invoke b @ [MemSample]) (chunks (nat batchSize) texts)))
          \<and> embeddings res = map emb texts)
        \<and> concat (chunks (nat batchSize) texts) = texts
        \<and> (\<forall>b \<in> set (chunks (nat batchSize) texts). b \<noteq> [] \<and> length b \<le> nat batchSize)
        \<and> (\<forall>b \<in> set (butlast (chunks (nat batchSize) texts)). length b = nat batchSize)"
proof -
  have n: "0 < nat batchSize" using assms by simp
  have "encode_loop (tracing_world emb) texts batchSize 0 [] 0 []
        = Some (run_batches (tracing_world emb) (chunks (nat batchSize) texts) [] 0 [])"
    using encode_loop_batches [OF assms, of 0 "tracing_world emb" texts "[]" 0 "[]"] by simp
  then have "encode_loop (tracing_world emb) texts batchSize 0 [] 0 []
        = Some (Inr (map emb texts, 0),
             concat (map (\<lambda>b. map Invoke b @ [MemSample]) (chunks (nat batchSize) texts)))"
    by (simp add: run_batches_tracing concat_chunks [OF n])
  moreover have "hrtime (tracing_world emb) s = (0, s)" "cpuUsage (tracing_world emb) s = ((0, 0), s)" for s
    by (simp_all add: tracing_world_def)
  ultimately have "\<exists>res. encodeTexts (tracing_world emb) texts batchSize []
            = Some (Inr res, concat (map (\<lambda>b. map Invoke b @ [MemSample]) (chunks (nat batchSize) texts)))
          \<and> embeddings res = map emb texts"
    by (simp add: encodeTexts_def)
  then show ?thesis using n by (simp add: concat_chunks chunks_lengths chunks_full)
qed

text \<open>C9 on \<open>["a", "b", "c"]\<close> with batch size 2, where the embedding of a text is the
  list of its character codes.\<close>

theorem C9_encode_order_witness:
  "(1::int) \<le> 2
   \<and> (\<exists>res. encodeTexts (tracing_world (map (\<lambda>ch. Fin (real (of_char ch)))))
               [''a'', ''b'', ''c''] 2 []
             = Some (Inr res, [Invoke ''a'', Invoke ''b'', MemSample, Invoke ''c'', MemSample])
          \<and> embeddings res = [[Fin 97], [Fin 98], [Fin 99]])
   \<and> chunks 2 [''a'', ''b'', ''c''] = [[''a'', ''b''], [''c'']]"
proof -
  have c: "chunks 2 [''a'', ''b'', ''c''] = [[''a'', ''b''], [''c'']]"
    by (simp add: chunks.simps)
  show ?thesis
    using C9_encode_order [of 2 "map (\<lambda>ch. Fin (real (of_char ch)))" "[''a'', ''b'', ''c'']"]
    by (simp add: c)
qed

section \<open>Empty input\<close>

lemma encode_loop_empty: "encode_loop w [] batchSize 0 acc peak s = Some (Inr (acc, peak), s)"
  by (subst encode_loop.simps) simp

lemma encodeTexts_empty:
  "\<exists>res s'. encodeTexts w [] batchSize s = Some (Inr res, s') \<and> embeddings res = []
     \<and> is_finite (wallTimeMs res)
     \<and> is_finite (cpuPercent res) = (wallTimeMs res \<noteq> Fin 0)"
proof -
  obtain t0 s1 where a: "hrtime w s = (t0, s1)" by (cases "hrtime w s")
  obtain c0 s2 where b: "cpuUsage w s1 = (c0, s2)" by (cases "cpuUsage w s1")
  obtain t1 s3 where c: "hrtime w s2 = (t1, s3)" by (cases "hrtime w s2")
  obtain c1 s4 where d: "cpuUsage w s3 = (c1, s4)" by (cases "cpuUsage w s3")
  show ?thesis
    by (simp add: encodeTexts_def a b c d encode_loop_empty Let_def)
qed

text \<open>
  C1, as the code has it. For the empty text sequence, and any batch size,
  \<^verbatim>\<open>encodeTexts\<close> returns without raising, with no embedding. Its CPU percentage is
  \<^verbatim>\<open>cpuTime / wallTime * 100\<close> with no guard: it is a finite number exactly when the wall
  time measured is not zero. In \<^verbatim>\<open>evaluateModel\<close> on an empty corpus and no query, each
  average latency is the phase time divided by the item count 0, and is never a finite
  number.
\<close>

theorem C1_empty_input:
  "(\<exists>res s'. encodeTexts w [] batchSize s = Some (Inr res, s') \<and> embeddings res = []
       \<and> is_finite (cpuPercent res) = (wallTimeMs res \<noteq> Fin 0))
   \<and> (\<exists>rep s'. evaluateModel w modelName [] [] s = Some (Inr rep, s')
       \<and> \<not> is_finite (avg_xml_latency_ms rep) \<and> \<not> is_finite (avg_query_latency_ms rep))"
proof -
  obtain r1 s1 where r1: "encodeTexts w [] BATCH_SIZE s = Some (Inr r1, s1)" "embeddings r1 = []"
    "is_finite (wallTimeMs r1)"
    using encodeTexts_empty [of w BATCH_SIZE s] by blast
  obtain r2 s2 where r2: "encodeTexts w [] BATCH_SIZE s1 = Some (Inr r2, s2)" "embeddings r2 = []"
    "is_finite (wallTimeMs r2)"
    using encodeTexts_empty [of w BATCH_SIZE s1] by blast
  from r1(3) r2(3) obtain t1 t2 where t: "wallTimeMs r1 = Fin t1" "wallTimeMs r2 = Fin t2"
    by (cases "wallTimeMs r1"; cases "wallTimeMs r2") simp_all
  have m: "matmul [] (transpose_js []) = Inr []" by (simp add: matmul_def)
  have "evaluateModel w modelName [] [] s = Some (Inr (report modelName r1 r2 0 0 []), s2)"
    by (simp add: evaluateModel_def r1 r2 m)
  moreover have "\<not> is_finite (avg_xml_latency_ms (report modelName r1 r2 0 0 []))"
    "\<not> is_finite (avg_query_latency_ms (report modelName r1 r2 0 0 []))"
    by (simp_all add: report_def Let_def t)
  ultimately have "\<exists>rep s'. evaluateModel w modelName [] [] s = Some (Inr rep, s')
       \<and> \<not> is_finite (avg_xml_latency_ms rep) \<and> \<not> is_finite (avg_query_latency_ms rep)"
    by blast
  moreover have "\<exists>res s'. encodeTexts w [] batchSize s = Some (Inr res, s') \<and> embeddings res = []
       \<and> is_finite (cpuPercent res) = (wallTimeMs res \<noteq> Fin 0)"
    using encodeTexts_empty [of w batchSize s] by blast
  ultimately show ?thesis by blast
qed

text \<open>C1 as stated fails: with a clock that advances by a microsecond at each reading,
  the report of an empty corpus and no query has \<open>Infinity\<close> in both average latencies.\<close>

theorem C1_counterexample:
  "evaluateModel clock_world ''m'' [] [] 0
   = Some (Inr \<lparr>model = ''m'',
                 xml_embedding_time_sec = Fin (1 / 1000000),
                 query_embedding_time_sec = Fin (1 / 1000000),
                 avg_xml_latency_ms = PInf,
                 avg_query_latency_ms = PInf,
                 xml_peak_memory_mb = Fin 0,
                 query_peak_memory_mb = Fin 0,
                 xml_cpu_percent = Fin 0,
                 query_cpu_percent = Fin 0,
                 recall = [(1, NaN), (3, NaN), (5, NaN), (10, NaN)],
                 mrr = NaN\<rparr>, 4)"
  by (simp add: evaluateModel_def encodeTexts_def clock_world_def encode_loop_empty Let_def
      BATCH_SIZE_def RECALL_K_VALUES_def matmul_def transpose_js_def report_def recallAtK_def
      meanReciprocalRank_def)

end
